theory Spec2Isabelle
  imports Complex_Main "HOL-Library.Word"
begin

section \<open>Python values\<close>

text \<open>
  A Python \<open>str\<close> is a sequence of Unicode code points and \<open>len\<close> counts code points,
  so a string is modelled as a list of code points (natural numbers). A \<open>bytes\<close> value is
  a list of 8-bit words. Python's \<open>int\<close> is unbounded and modelled by \<open>int\<close>; a
  \<open>float\<close> that only carries a wall-clock time is modelled by \<open>real\<close>.
\<close>

type_synonym codepoint = nat
type_synonym pystr = "codepoint list"
type_synonym byte = "8 word"
type_synonym bytes = "byte list"

definition ascii :: "string \<Rightarrow> pystr" where
  "ascii s = map of_char s"

section \<open>models/session.py\<close>

datatype SessionState = CREATED | ACTIVE | PAUSED | STOPPED

datatype SessionMode = INTERVIEW_ASSISTANT | MEETING_ASSISTANT

record SessionStats =
  dropped_frames_mic :: int
  dropped_frames_system :: int
  total_frames_mic :: int
  total_frames_system :: int
  transcript_segments :: int
  hints_generated :: int
  stt_errors :: int
  llm_errors :: int

definition SessionStats_default :: SessionStats where
  "SessionStats_default =
     \<lparr>dropped_frames_mic = 0, dropped_frames_system = 0, total_frames_mic = 0,
      total_frames_system = 0, transcript_segments = 0, hints_generated = 0,
      stt_errors = 0, llm_errors = 0\<rparr>"

definition dropped_frames_count :: "SessionStats \<Rightarrow> int" where
  "dropped_frames_count st = dropped_frames_mic st + dropped_frames_system st"

subsection \<open>asyncio.Queue, as far as the session uses it\<close>

text \<open>
  \<open>asyncio.Queue(maxsize)\<close>: a FIFO of items; \<open>put_nowait\<close> raises \<open>QueueFull\<close> when
  \<open>maxsize > 0\<close> and the queue holds \<open>maxsize\<close> items or more, \<open>get_nowait\<close> raises
  \<open>QueueEmpty\<close> on an empty queue and otherwise removes the oldest item.
\<close>

record 'a Queue =
  items :: "'a list"
  maxsize :: int

datatype queue_error = QueueFull | QueueEmpty

definition full :: "'a Queue \<Rightarrow> bool" where
  "full q = (if maxsize q \<le> 0 then False else int (length (items q)) \<ge> maxsize q)"

definition put_nowait :: "'a Queue \<Rightarrow> 'a \<Rightarrow> queue_error + 'a Queue" where
  "put_nowait q x = (if full q then Inl QueueFull else Inr (q\<lparr>items := items q @ [x]\<rparr>))"

definition get_nowait :: "'a Queue \<Rightarrow> queue_error + ('a \<times> 'a Queue)" where
  "get_nowait q =
     (case items q of
        [] \<Rightarrow> Inl QueueEmpty
      | x # xs \<Rightarrow> Inr (x, q\<lparr>items := xs\<rparr>))"

text \<open>
  The session object. \<open>created_at\<close> is never read by the operations modelled here
  and is left out; the background tasks are represented by their identifiers.
\<close>

record Session =
  session_id :: pystr
  state :: SessionState
  mode :: SessionMode
  hints_enabled :: bool
  custom_prompt :: "pystr option"
  knowledge_workspace :: "pystr option"
  mic_queue :: "bytes Queue"
  system_queue :: "bytes Queue"
  stats :: SessionStats
  tasks :: "nat list"

text \<open>The dataclass constructor \<open>Session(mode=mode)\<close>; the fresh uuid is an input.\<close>

definition Session_new :: "pystr \<Rightarrow> SessionMode \<Rightarrow> Session" where
  "Session_new sid m =
     \<lparr>session_id = sid, state = CREATED, mode = m, hints_enabled = True,
      custom_prompt = None, knowledge_workspace = None,
      mic_queue = \<lparr>items = [], maxsize = 200\<rparr>,
      system_queue = \<lparr>items = [], maxsize = 200\<rparr>,
      stats = SessionStats_default, tasks = []\<rparr>"

definition cancel_tasks :: "Session \<Rightarrow> Session" where
  "cancel_tasks s = s\<lparr>tasks := []\<rparr>"

section \<open>routes/websocket.py: audio ingress\<close>

text \<open>
  The connection handler holds its session (or \<open>None\<close>) and the messages it has sent to
  the client so far. \<open>_handle_audio\<close> is the handler for one binary message.
\<close>

datatype ServerMessage = ErrorMessage pystr | StatusMessage | EventMessage

record ConnectionHandler =
  session :: "Session option"
  sent :: "ServerMessage list"

text \<open>
  The \<open>try: queue.put_nowait(pcm_data) except QueueFull: ...\<close> block: the new queue and
  whether the \<open>except\<close> branch ran (the caller then counts a dropped frame).
\<close>

definition put_drop_oldest :: "bytes Queue \<Rightarrow> bytes \<Rightarrow> bytes Queue \<times> bool" where
  "put_drop_oldest q pcm_data =
     (case put_nowait q pcm_data of
        Inr q' \<Rightarrow> (q', False)
      | Inl _ \<Rightarrow>
          (let q1 = (case get_nowait q of Inr (_, q') \<Rightarrow> q' | Inl _ \<Rightarrow> q);
               q2 = (case put_nowait q1 pcm_data of Inr q' \<Rightarrow> q' | Inl _ \<Rightarrow> q1)
           in (q2, True)))"

definition handle_audio :: "ConnectionHandler \<Rightarrow> bytes \<Rightarrow> ConnectionHandler" where
  "handle_audio h data =
     (case session h of
        None \<Rightarrow> h
      | Some s \<Rightarrow>
          if state s \<noteq> ACTIVE then h
          else if length data < 2 then h
          else
            (let channel_id = hd data; pcm_data = tl data in
             if channel_id = 0 then
               (let st = (stats s)\<lparr>total_frames_mic := total_frames_mic (stats s) + 1\<rparr>;
                    (q, dropped) = put_drop_oldest (mic_queue s) pcm_data;
                    st' = (if dropped
                           then st\<lparr>dropped_frames_mic := dropped_frames_mic st + 1\<rparr>
                           else st)
                in h\<lparr>session := Some (s\<lparr>mic_queue := q, stats := st'\<rparr>)\<rparr>)
             else if channel_id = 1 then
               (let st = (stats s)\<lparr>total_frames_system := total_frames_system (stats s) + 1\<rparr>;
                    (q, dropped) = put_drop_oldest (system_queue s) pcm_data;
                    st' = (if dropped
                           then st\<lparr>dropped_frames_system := dropped_frames_system st + 1\<rparr>
                           else st)
                in h\<lparr>session := Some (s\<lparr>system_queue := q, stats := st'\<rparr>)\<rparr>)
             else h))"

text \<open>A run of binary messages, delivered in order with no consumer in between.\<close>

definition deliver :: "ConnectionHandler \<Rightarrow> bytes list \<Rightarrow> ConnectionHandler" where
  "deliver h msgs = foldl handle_audio h msgs"

section \<open>Python string operations\<close>

definition nl :: codepoint where
  "nl = 10"

text \<open>\<open>sep.join(parts)\<close>.\<close>

fun join :: "pystr \<Rightarrow> pystr list \<Rightarrow> pystr" where
  "join sep [] = []"
| "join sep [x] = x"
| "join sep (x # y # ys) = x @ sep @ join sep (y # ys)"

section \<open>models/events.py\<close>

datatype Speaker = ME | THEM

text \<open>
  \<open>TranscriptDelta\<close> and \<open>TranscriptCompleted\<close> carry the same four fields and differ
  only in their constant \<open>type\<close> tag; the handler that receives the event fixes which
  one it is.
\<close>

text \<open>The field \<open>text\<close> is written with a prime, \<open>text\<close> being a reserved word here.\<close>

record TranscriptEvent =
  speaker :: Speaker
  text' :: pystr
  segment_id :: pystr
  timestamp :: real

type_synonym TranscriptDelta = TranscriptEvent
type_synonym TranscriptCompleted = TranscriptEvent

record TextChunk =
  chunk_speaker :: Speaker
  chunk_text :: pystr
  last_context :: pystr
  global_context :: "pystr option"
  is_question :: bool

section \<open>services/orchestrator.py\<close>

text \<open>The dataclass \<open>TranscriptSegment\<close>: the four event fields and \<open>is_complete\<close>.\<close>

record TranscriptSegment = TranscriptEvent +
  is_complete :: bool

text \<open>
  \<open>collections.deque(maxlen=n).append(x)\<close>: the item is added on the right and, when the
  deque then holds more than \<open>n\<close> items, the leftmost one is discarded.
\<close>

definition deque_append :: "nat \<Rightarrow> 'a list \<Rightarrow> 'a \<Rightarrow> 'a list" where
  "deque_append maxlen d x = (let d' = d @ [x] in if length d' > maxlen then tl d' else d')"

record TextAggregator =
  current_segments :: "pystr \<rightharpoonup> TranscriptSegment"
  history :: "TranscriptSegment list"
  pending_text :: pystr
  pending_speaker :: "Speaker option"
  pending_segment_id :: "pystr option"
  last_delta_time :: real

definition TextAggregator_new :: TextAggregator where
  "TextAggregator_new =
     \<lparr>current_segments = Map.empty, history = [], pending_text = [],
      pending_speaker = None, pending_segment_id = None, last_delta_time = 0\<rparr>"

text \<open>\<open>add_delta\<close>; the reading of \<open>time.time()\<close> is the input \<open>now\<close>.\<close>

definition add_delta :: "TextAggregator \<Rightarrow> TranscriptDelta \<Rightarrow> real \<Rightarrow> TextAggregator" where
  "add_delta a event now =
     (let sid = segment_id event;
          cs = (if sid \<notin> dom (current_segments a)
                then (current_segments a)
                       (sid \<mapsto> \<lparr>speaker = speaker event, text' = [], segment_id = sid,
                                timestamp = timestamp event, is_complete = False\<rparr>)
                else current_segments a)
      in case cs sid of
           None \<Rightarrow> a
         | Some seg \<Rightarrow>
             (let segment = seg\<lparr>text' := text' seg @ text' event\<rparr>
              in a\<lparr>current_segments := cs(sid \<mapsto> segment),
                   last_delta_time := now,
                   pending_text := text' segment,
                   pending_speaker := Some (speaker segment),
                   pending_segment_id := Some sid\<rparr>))"

definition complete_segment ::
  "TextAggregator \<Rightarrow> TranscriptCompleted \<Rightarrow> TextAggregator \<times> TranscriptSegment option" where
  "complete_segment a event =
     (let sid = segment_id event;
          segment =
            (case current_segments a sid of
               Some seg \<Rightarrow> seg\<lparr>text' := text' event, is_complete := True\<rparr>
             | None \<Rightarrow> \<lparr>speaker = speaker event, text' = text' event, segment_id = sid,
                         timestamp = timestamp event, is_complete = True\<rparr>);
          a1 = a\<lparr>current_segments := (current_segments a)(sid := None),
                 history := deque_append 20 (history a) segment\<rparr>;
          a2 = (if pending_segment_id a1 = Some sid
                then a1\<lparr>pending_text := [], pending_speaker := None,
                        pending_segment_id := None\<rparr>
                else a1)
      in (a2, Some segment))"

text \<open>The loop of \<open>get_last_context\<close> over \<open>reversed(self.history)\<close>, with its \<open>break\<close>.\<close>

fun last_context_loop :: "Speaker \<Rightarrow> int \<Rightarrow> TranscriptSegment list \<Rightarrow> pystr list \<Rightarrow> pystr list" where
  "last_context_loop sp sentences [] texts = texts"
| "last_context_loop sp sentences (seg # rest) texts =
     (if speaker seg = sp then
        (let texts' = texts @ [text' seg]
         in if int (length texts') \<ge> sentences then texts'
            else last_context_loop sp sentences rest texts')
      else last_context_loop sp sentences rest texts)"

definition get_last_context :: "TextAggregator \<Rightarrow> Speaker \<Rightarrow> int \<Rightarrow> pystr" where
  "get_last_context a sp sentences =
     join (ascii '' '') (rev (last_context_loop sp sentences (rev (history a)) []))"

text \<open>
  The loop of \<open>get_global_context\<close> over \<open>reversed(self.history)\<close>: \<open>texts\<close> and
  \<open>total_chars\<close> are the loop's two variables, and the first line that does not fit ends
  the loop.
\<close>

definition render_segment :: "TranscriptSegment \<Rightarrow> pystr" where
  "render_segment seg =
     (let prefix = (if speaker seg = ME then ascii ''[ME]'' else ascii ''[THEM]'')
      in prefix @ ascii '' '' @ text' seg)"

fun global_context_loop :: "int \<Rightarrow> TranscriptSegment list \<Rightarrow> pystr list \<Rightarrow> int \<Rightarrow> pystr list" where
  "global_context_loop max_chars [] texts total_chars = texts"
| "global_context_loop max_chars (seg # rest) texts total_chars =
     (let t = render_segment seg
      in if total_chars + int (length t) > max_chars then texts
         else global_context_loop max_chars rest (texts @ [t]) (total_chars + int (length t)))"

definition get_global_context :: "TextAggregator \<Rightarrow> int \<Rightarrow> pystr" where
  "get_global_context a max_chars =
     join [nl] (rev (global_context_loop max_chars (rev (history a)) [] 0))"

text \<open>
  The orchestrator's own state. The session is shared with the other components and is
  only read here, so the operations take it as an argument. Events handed to
  \<open>event_bus.publish\<close> are returned in publication order.
\<close>

datatype Event = TEXT_CHUNK_READY TextChunk
  | HINT_TOKEN pystr pystr
  | HINT_COMPLETED pystr pystr SessionMode
  | LLM_ERROR pystr







section \<open>services/session_manager.py\<close>

text \<open>
  Session objects have identity: the manager, the connection handlers and the callers of
  \<open>start_session\<close> and \<open>stop_session\<close> hold references to them. The model keeps every
  session object created so far in \<open>objects\<close>; a reference is an index into that list.
  \<open>current_session\<close> is the manager's own slot. A reference that was never handed out
  (an index out of range) is ignored.
\<close>

type_synonym ref = nat

record SessionManager =
  current_session :: "ref option"
  objects :: "Session list"

definition SessionManager_new :: SessionManager where
  "SessionManager_new = \<lparr>current_session = None, objects = []\<rparr>"

text \<open>\<open>_stop_session\<close>, acting on one session object.\<close>

definition stop_session_locked :: "Session \<Rightarrow> Session" where
  "stop_session_locked s =
     (if state s = STOPPED then s else cancel_tasks (s\<lparr>state := STOPPED\<rparr>))"

text \<open>\<open>create_session\<close>; the uuid minted for the new session is the input \<open>uuid\<close>.\<close>

definition create_session :: "SessionManager \<Rightarrow> pystr \<Rightarrow> SessionMode \<Rightarrow> SessionManager \<times> ref" where
  "create_session m uuid md =
     (let objs =
            (case current_session m of
               None \<Rightarrow> objects m
             | Some r \<Rightarrow>
                 if r < length (objects m) \<and> state (objects m ! r) = ACTIVE
                 then (objects m)[r := stop_session_locked (objects m ! r)]
                 else objects m);
          r' = length objs
      in (m\<lparr>objects := objs @ [Session_new uuid md], current_session := Some r'\<rparr>, r'))"

definition get_session :: "SessionManager \<Rightarrow> pystr \<Rightarrow> ref option" where
  "get_session m sid =
     (case current_session m of
        None \<Rightarrow> None
      | Some r \<Rightarrow> if r < length (objects m) \<and> session_id (objects m ! r) = sid
                  then Some r else None)"

definition start_session :: "SessionManager \<Rightarrow> ref \<Rightarrow> SessionManager" where
  "start_session m r =
     (if r < length (objects m) then
        (if state (objects m ! r) \<noteq> CREATED then m
         else m\<lparr>objects := (objects m)[r := (objects m ! r)\<lparr>state := ACTIVE\<rparr>]\<rparr>)
      else m)"

definition stop_session :: "SessionManager \<Rightarrow> ref \<Rightarrow> SessionManager" where
  "stop_session m r =
     (if r < length (objects m)
      then m\<lparr>objects := (objects m)[r := stop_session_locked (objects m ! r)]\<rparr>
      else m)"

definition destroy_session :: "SessionManager \<Rightarrow> pystr \<Rightarrow> SessionManager" where
  "destroy_session m sid =
     (case current_session m of
        None \<Rightarrow> m
      | Some r \<Rightarrow>
          if r < length (objects m) \<and> session_id (objects m ! r) = sid
          then m\<lparr>objects := (objects m)[r := stop_session_locked (objects m ! r)],
                 current_session := None\<rparr>
          else m)"

text \<open>Calls on the manager, and a run of them in order (the manager's lock serialises them).\<close>

datatype ManagerCall =
    CreateSession pystr SessionMode
  | StartSession ref
  | StopSession ref
  | DestroySession pystr

fun manager_call :: "SessionManager \<Rightarrow> ManagerCall \<Rightarrow> SessionManager" where
  "manager_call m (CreateSession uuid md) = fst (create_session m uuid md)"
| "manager_call m (StartSession r) = start_session m r"
| "manager_call m (StopSession r) = stop_session m r"
| "manager_call m (DestroySession sid) = destroy_session m sid"

definition manager_run :: "ManagerCall list \<Rightarrow> SessionManager" where
  "manager_run calls = foldl manager_call SessionManager_new calls"

definition active_sessions :: "SessionManager \<Rightarrow> Session list" where
  "active_sessions m = filter (\<lambda>s. state s = ACTIVE) (objects m)"

section \<open>services/llm_service.py: hint formatting\<close>

text \<open>
  \<open>str.isspace\<close> and \<open>str.isdigit\<close> on one code point, as CPython 3.11 (Unicode 14.0)
  defines them: \<open>str.strip()\<close> removes the code points for which \<open>isspace\<close> holds, and
  \<open>isdigit\<close> holds for the code points of numeric type Digit or Decimal.
\<close>

definition py_isspace :: "codepoint \<Rightarrow> bool" where
  "py_isspace c =
     (c \<in> set [9, 10, 11, 12, 13, 28, 29, 30, 31, 32, 133, 160, 5760,
               8192, 8193, 8194, 8195, 8196, 8197, 8198, 8199, 8200, 8201, 8202,
               8232, 8233, 8239, 8287, 12288])"

definition digit_ranges :: "(codepoint \<times> codepoint) list" where
  "digit_ranges =
     [(48, 57), (178, 179), (185, 185), (1632, 1641), (1776, 1785), (1984, 1993),
      (2406, 2415), (2534, 2543), (2662, 2671), (2790, 2799), (2918, 2927), (3046, 3055),
      (3174, 3183), (3302, 3311), (3430, 3439), (3558, 3567), (3664, 3673), (3792, 3801),
      (3872, 3881), (4160, 4169), (4240, 4249), (4969, 4977), (6112, 6121), (6160, 6169),
      (6470, 6479), (6608, 6618), (6784, 6793), (6800, 6809), (6992, 7001), (7088, 7097),
      (7232, 7241), (7248, 7257), (8304, 8304), (8308, 8313), (8320, 8329), (9312, 9320),
      (9332, 9340), (9352, 9360), (9450, 9450), (9461, 9469), (9471, 9471), (10102, 10110),
      (10112, 10120), (10122, 10130), (42528, 42537), (43216, 43225), (43264, 43273),
      (43472, 43481), (43504, 43513), (43600, 43609), (44016, 44025), (65296, 65305),
      (66720, 66729), (68160, 68163), (68912, 68921), (69216, 69224), (69714, 69722),
      (69734, 69743), (69872, 69881), (69942, 69951), (70096, 70105), (70384, 70393),
      (70736, 70745), (70864, 70873), (71248, 71257), (71360, 71369), (71472, 71481),
      (71904, 71913), (72016, 72025), (72784, 72793), (73040, 73049), (73120, 73129),
      (92768, 92777), (92864, 92873), (93008, 93017), (120782, 120831), (123200, 123209),
      (123632, 123641), (125264, 125273), (127232, 127242), (130032, 130041)]"

definition py_isdigit :: "codepoint \<Rightarrow> bool" where
  "py_isdigit c = list_ex (\<lambda>(lo, hi). lo \<le> c \<and> c \<le> hi) digit_ranges"

definition strip :: "pystr \<Rightarrow> pystr" where
  "strip s = rev (dropWhile py_isspace (rev (dropWhile py_isspace s)))"

definition startswith :: "pystr \<Rightarrow> pystr \<Rightarrow> bool" where
  "startswith s p = (take (length p) s = p)"

text \<open>\<open>s.split(sep)\<close> for a one-character separator: never empty, \<open>''.split(sep) == ['']\<close>.\<close>

fun split_on :: "codepoint \<Rightarrow> pystr \<Rightarrow> pystr list" where
  "split_on sep [] = [[]]"
| "split_on sep (c # cs) =
     (if c = sep then [] # split_on sep cs
      else (case split_on sep cs of
              [] \<Rightarrow> [[c]]
            | l # ls \<Rightarrow> (c # l) # ls))"

text \<open>\<open>s.split(sep, 1)\<close> for a one-character separator.\<close>

definition split_once :: "codepoint \<Rightarrow> pystr \<Rightarrow> pystr list" where
  "split_once sep s =
     (if sep \<in> set s
      then [takeWhile (\<lambda>c. c \<noteq> sep) s, tl (dropWhile (\<lambda>c. c \<noteq> sep) s)]
      else [s])"

definition MAX_HINT_POINTS :: nat where
  "MAX_HINT_POINTS = 3"

text \<open>
  The three markers that \<open>_format_hint\<close> tests with \<open>startswith\<close>. The second literal is
  stored in the source file as the bytes C3 A2, E2 82 AC, C2 A2, 20, which Python reads
  (UTF-8) as the four code points U+00E2, U+20AC, U+00A2 and a space.
\<close>

definition dash_marker :: pystr where
  "dash_marker = ascii ''- ''"

definition second_marker :: pystr where
  "second_marker = [226, 8364, 162, 32]"

definition star_marker :: pystr where
  "star_marker = ascii ''* ''"

text \<open>One iteration of the loop of \<open>_format_hint\<close> over the lines, on \<open>bullet_points\<close>.\<close>

definition format_step :: "pystr list \<Rightarrow> pystr \<Rightarrow> pystr list" where
  "format_step bullet_points raw =
     (let line = strip raw in
      if line = [] then bullet_points
      else if startswith line dash_marker \<or> startswith line second_marker
              \<or> startswith line star_marker
        then bullet_points @ [line]
      else if py_isdigit (hd line) \<and> 46 \<in> set (take 3 line) then
        (let parts = split_once 46 line in
         if length parts > 1 then bullet_points @ [ascii ''- '' @ strip (parts ! 1)]
         else bullet_points)
      else if bullet_points \<noteq> []
        then butlast bullet_points @ [last bullet_points @ ascii '' '' @ line]
      else bullet_points)"

definition format_hint :: "pystr \<Rightarrow> pystr" where
  "format_hint t =
     join [nl] (take MAX_HINT_POINTS (foldl format_step [] (split_on nl (strip t))))"

text \<open>The lines of a text, as \<open>text.split('\n')\<close> gives them, without the empty ones.\<close>

definition nonempty_lines :: "pystr \<Rightarrow> pystr list" where
  "nonempty_lines t = filter (\<lambda>l. l \<noteq> []) (split_on nl t)"

section \<open>services/llm_service.py: the completion streamer\<close>

text \<open>
  The state of \<open>LLMService\<close> that \<open>_on_chunk\<close> and \<open>_generate_hint\<close> read and write.
  The session is shared; \<open>_generate_hint\<close> updates its statistics, so the functions below
  take the session and return it.
\<close>

record LLMService =
  generating :: bool
  cancel_event :: bool
  current_hint_id :: "pystr option"
  pending_chunk :: "TextChunk option"

definition LLMService_new :: LLMService where
  "LLMService_new =
     \<lparr>generating = False, cancel_event = False, current_hint_id = None, pending_chunk = None\<rparr>"

text \<open>
  What the upstream does during one request. A received line is classified the way the
  loop body classifies it: skipped (empty, or not starting with \<open>data: \<close>), the
  \<open>[DONE]\<close> sentinel, a JSON chunk with its \<open>choices[0].delta.content\<close>, or a chunk
  whose parsing raises. While \<open>_generate_hint\<close> is suspended, \<open>_on_chunk\<close> may run for a
  new chunk (\<open>Arrival\<close>), and the transport may raise (\<open>Broken\<close>, with \<open>str(e)\<close>).
  A request either fails before a response is read or yields a status code and a stream.
  Reading the body of an error response is taken not to raise, and chunks are taken to
  arrive only while the stream is read.
\<close>

datatype SseLine = Skipped | DoneSentinel | Content pystr | Unparsable

datatype StreamItem = Line SseLine | Arrival TextChunk | Broken pystr

datatype Upstream = Failed pystr | Response int "StreamItem list"

text \<open>\<open>_on_chunk\<close> when \<open>self._generating\<close> is true (the only case that can interleave).\<close>

definition on_chunk_generating :: "Session \<Rightarrow> LLMService \<Rightarrow> TextChunk \<Rightarrow> LLMService" where
  "on_chunk_generating s svc chunk =
     (if \<not> hints_enabled s then svc
      else if mode s = INTERVIEW_ASSISTANT
        then svc\<lparr>cancel_event := True, pending_chunk := Some chunk\<rparr>
      else svc\<lparr>pending_chunk := Some chunk\<rparr>)"

text \<open>
  How the \<open>try\<close> block is left: by falling out of the \<open>async with\<close> (\<open>Completed\<close>), by a
  \<open>return\<close> (\<open>Returned\<close>), or by an exception (\<open>Raised\<close>).
\<close>

datatype Exit = Completed | Returned | Raised pystr

text \<open>
  The loop \<open>async for line in response.aiter_lines()\<close>: the service state, the collected
  text and the events published so far are threaded through.
\<close>

fun stream_loop ::
  "Session \<Rightarrow> pystr \<Rightarrow> StreamItem list \<Rightarrow> LLMService \<Rightarrow> pystr \<Rightarrow> Event list
     \<Rightarrow> Exit \<times> LLMService \<times> pystr \<times> Event list" where
  "stream_loop s hint_id [] svc collected evs = (Completed, svc, collected, evs)"
| "stream_loop s hint_id (Arrival c # rest) svc collected evs =
     stream_loop s hint_id rest (on_chunk_generating s svc c) collected evs"
| "stream_loop s hint_id (Broken e # rest) svc collected evs = (Raised e, svc, collected, evs)"
| "stream_loop s hint_id (Line l # rest) svc collected evs =
     (if cancel_event svc then (Returned, svc, collected, evs)
      else case l of
             Skipped \<Rightarrow> stream_loop s hint_id rest svc collected evs
           | DoneSentinel \<Rightarrow> (Completed, svc, collected, evs)
           | Content token \<Rightarrow>
               if token \<noteq> []
               then stream_loop s hint_id rest svc (collected @ token)
                      (evs @ [HINT_TOKEN hint_id token])
               else stream_loop s hint_id rest svc collected evs
           | Unparsable \<Rightarrow> stream_loop s hint_id rest svc collected evs)"

text \<open>
  One call of \<open>_generate_hint\<close> up to the end of its \<open>finally\<close> assignments, for one
  upstream request; \<open>hint_id\<close> is the uuid minted for it. Prompt assembly has no effect
  on the events or the counters and is not modelled.
\<close>

definition generate_once ::
  "Session \<Rightarrow> LLMService \<Rightarrow> pystr \<Rightarrow> Upstream \<Rightarrow> Session \<times> LLMService \<times> Event list" where
  "generate_once s svc hint_id up =
     (let svc0 = svc\<lparr>generating := True, cancel_event := False, current_hint_id := Some hint_id\<rparr>;
          (exit, svc1, collected, evs) =
            (case up of
               Failed e \<Rightarrow> (Raised e, svc0, [], [])
             | Response status_code stream \<Rightarrow>
                 if status_code \<noteq> 200 then (Returned, svc0, [], [])
                 else stream_loop s hint_id stream svc0 [] []);
          (s2, evs2) =
            (case exit of
               Completed \<Rightarrow>
                 if collected \<noteq> [] \<and> \<not> cancel_event svc1
                 then (s\<lparr>stats := (stats s)\<lparr>hints_generated := hints_generated (stats s) + 1\<rparr>\<rparr>,
                       evs @ [HINT_COMPLETED hint_id (format_hint collected) (mode s)])
                 else (s, evs)
             | Returned \<Rightarrow> (s, evs)
             | Raised e \<Rightarrow>
                 (s\<lparr>stats := (stats s)\<lparr>llm_errors := llm_errors (stats s) + 1\<rparr>\<rparr>,
                  evs @ [LLM_ERROR e]))
      in (s2, svc1\<lparr>generating := False, current_hint_id := None\<rparr>, evs2))"

text \<open>
  \<open>_generate_hint\<close> with the tail of its \<open>finally\<close> block: a pending chunk starts the next
  generation. Each generation uses the next scripted request (its hint id and what the
  upstream does); the run ends when no chunk is pending or the script is used up.
\<close>

fun generate_hint ::
  "Session \<Rightarrow> LLMService \<Rightarrow> (pystr \<times> Upstream) list \<Rightarrow> Session \<times> LLMService \<times> Event list" where
  "generate_hint s svc [] = (s, svc, [])"
| "generate_hint s svc ((hint_id, up) # later) =
     (let (s1, svc1, evs1) = generate_once s svc hint_id up
      in case pending_chunk svc1 of
           None \<Rightarrow> (s1, svc1, evs1)
         | Some chunk \<Rightarrow>
             (let (s2, svc2, evs2) = generate_hint s1 (svc1\<lparr>pending_chunk := None\<rparr>) later
              in (s2, svc2, evs1 @ evs2)))"

definition is_hint_completed :: "Event \<Rightarrow> bool" where
  "is_hint_completed e = (case e of HINT_COMPLETED _ _ _ \<Rightarrow> True | _ \<Rightarrow> False)"

definition is_llm_error :: "Event \<Rightarrow> bool" where
  "is_llm_error e = (case e of LLM_ERROR _ \<Rightarrow> True | _ \<Rightarrow> False)"

section \<open>services/knowledge_service.py: retrieval\<close>

text \<open>
  A chunk of the index is a dict with the keys \<open>text\<close> and \<open>keywords\<close>, here the fields
  \<open>chunk_body\<close> and \<open>chunk_keywords\<close>. The keyword set of a whole file is not read by
  \<open>retrieve\<close> and is left out.
\<close>

record Chunk =
  chunk_body :: pystr
  chunk_keywords :: "pystr set"

record FileIndex =
  filename :: pystr
  title :: pystr
  chunks :: "Chunk list"

record ScoredChunk =
  scored_text :: pystr
  score :: int
  scored_filename :: pystr

definition MAX_CONTEXT_TOKENS :: int where
  "MAX_CONTEXT_TOKENS = 2000"

text \<open>The scoring loops of \<open>retrieve\<close> over the files and their chunks.\<close>

definition score_file :: "pystr set \<Rightarrow> FileIndex \<Rightarrow> ScoredChunk list" where
  "score_file query_keywords file_index =
     concat (map (\<lambda>chunk.
        (let overlap = int (card (query_keywords \<inter> chunk_keywords chunk))
         in if overlap > 0
            then [\<lparr>scored_text = chunk_body chunk, score = overlap,
                   scored_filename = filename file_index\<rparr>]
            else [])) (chunks file_index))"

definition render_part :: "pystr \<Rightarrow> pystr \<Rightarrow> pystr" where
  "render_part fname body = ascii ''[From '' @ fname @ ascii '']'' @ [nl] @ body"

text \<open>
  The loop that builds \<open>context_parts\<close>, with its two variables \<open>context_parts\<close> and
  \<open>total_chars\<close>; \<open>break\<close> returns what has been collected.
\<close>

fun context_loop :: "int \<Rightarrow> ScoredChunk list \<Rightarrow> pystr list \<Rightarrow> int \<Rightarrow> pystr list" where
  "context_loop max_chars [] context_parts total_chars = context_parts"
| "context_loop max_chars (chunk # rest) context_parts total_chars =
     (let body = scored_text chunk in
      if total_chars + int (length body) > max_chars then
        (let remaining = max_chars - total_chars in
         if remaining > 100 then
           (let body' = take (nat remaining) body @ ascii ''...''
            in context_loop max_chars rest
                 (context_parts @ [render_part (scored_filename chunk) body'])
                 (total_chars + int (length body')))
         else context_parts)
      else context_loop max_chars rest
             (context_parts @ [render_part (scored_filename chunk) body])
             (total_chars + int (length body)))"

text \<open>
  \<open>retrieve\<close> from the point where the index of the workspace (\<open>_get_index\<close>, file
  input) and the keywords of the query (\<open>extract_keywords\<close>) are at hand. The sort is
  Python's stable sort on the score, largest first. \<open>select_top\<close> is the part of the
  body that computes \<open>top_chunks\<close>.
\<close>

definition select_top :: "FileIndex list \<Rightarrow> pystr set \<Rightarrow> nat \<Rightarrow> ScoredChunk list" where
  "select_top indices query_keywords top_k =
     (let scored_chunks = concat (map (score_file query_keywords) indices);
          sorted_chunks = sort_key (\<lambda>c. - score c) scored_chunks
      in take top_k sorted_chunks)"

definition retrieve :: "FileIndex list \<Rightarrow> pystr set \<Rightarrow> nat \<Rightarrow> pystr" where
  "retrieve indices query_keywords top_k =
     (if indices = [] then []
      else if query_keywords = {} then []
      else
        (let top_chunks = select_top indices query_keywords top_k
         in if top_chunks = [] then []
            else join [nl, nl] (context_loop (MAX_CONTEXT_TOKENS * 4) top_chunks [] 0)))"

section \<open>utils/audio.py: level\<close>

text \<open>
  \<open>np.frombuffer(pcm_bytes, dtype=np.int16)\<close>: raises \<open>ValueError\<close> when the buffer size
  is not a multiple of the element size, and otherwise reads little-endian signed 16-bit
  samples.
\<close>

datatype np_error = ValueError

fun int16_samples :: "bytes \<Rightarrow> int list" where
  "int16_samples (lo # hi # rest) = sint (word_cat hi lo :: 16 word) # int16_samples rest"
| "int16_samples _ = []"

definition frombuffer_int16 :: "bytes \<Rightarrow> np_error + int list" where
  "frombuffer_int16 b = (if length b mod 2 \<noteq> 0 then Inl ValueError else Inr (int16_samples b))"

text \<open>
  \<open>calculate_level\<close>. The floating-point operations (square, mean, square root,
  logarithm) are taken as the real-number operations they approximate; the results
  below rest only on the exception, on exact arithmetic on zeros and on the final clamp.
\<close>

definition calculate_level :: "bytes \<Rightarrow> np_error + real" where
  "calculate_level pcm_bytes =
     (if length pcm_bytes = 0 then Inr (- 60)
      else case frombuffer_int16 pcm_bytes of
             Inl e \<Rightarrow> Inl e
           | Inr samples \<Rightarrow>
               (let rms = sqrt (sum_list (map (\<lambda>x. (real_of_int x)\<^sup>2) samples)
                                 / real (length samples))
                in if rms < 1 / 10 ^ 6 then Inr (- 60)
                   else (let db = 20 * log 10 (rms / 32768)
                         in Inr (max (- 60) (min 0 db)))))"

section \<open>Notions used in the statements and proofs\<close>

subsection \<open>Hint formatting\<close>

text \<open>A line carries one of the three markers of \<open>_format_hint\<close>.\<close>

definition has_marker :: "pystr \<Rightarrow> bool" where
  "has_marker l =
     (startswith l dash_marker \<or> startswith l second_marker \<or> startswith l star_marker)"

text \<open>A string that \<open>strip\<close> leaves alone: not empty, no white space at either end.\<close>

definition tight :: "pystr \<Rightarrow> bool" where
  "tight s = (s \<noteq> [] \<and> \<not> py_isspace (hd s) \<and> \<not> py_isspace (last s))"

text \<open>What every entry of \<open>bullet_points\<close> satisfies throughout the loop.\<close>

definition bullet_ok :: "pystr \<Rightarrow> bool" where
  "bullet_ok b = (has_marker b \<and> nl \<notin> set b \<and> (tight b \<or> b = dash_marker))"

definition bullets :: "pystr \<Rightarrow> pystr list" where
  "bullets t = take MAX_HINT_POINTS (foldl format_step [] (split_on nl (strip t)))"

definition numbered_hint :: pystr where
  "numbered_hint = ascii ''1. scope'' @ [nl] @ ascii ''* risks''"

subsection \<open>Global context\<close>

definition line_len :: "TranscriptSegment \<Rightarrow> int" where
  "line_len seg = int (length (render_segment seg))"

definition seg245 :: TranscriptSegment where
  "seg245 = \<lparr>speaker = ME, text' = replicate 245 97, segment_id = ascii ''a'',
             timestamp = 1, is_complete = True\<rparr>"

subsection \<open>Retrieval\<close>

definition body_chars :: "ScoredChunk list \<Rightarrow> int" where
  "body_chars cs = int (sum_list (map (length \<circ> scored_text) cs))"

definition whole :: "ScoredChunk \<Rightarrow> pystr" where
  "whole c = render_part (scored_filename c) (scored_text c)"

definition truncated :: "ScoredChunk \<Rightarrow> nat \<Rightarrow> pystr" where
  "truncated c n = render_part (scored_filename c) (take n (scored_text c) @ ascii ''...'')"

text \<open>Two indexes of one file with two chunks that both match the query \<open>alpha\<close>.\<close>

definition big_index :: "FileIndex list" where
  "big_index = [\<lparr>filename = ascii ''a.md'', title = ascii ''a'',
      chunks = [\<lparr>chunk_body = replicate 7900 120, chunk_keywords = {ascii ''alpha''}\<rparr>,
                \<lparr>chunk_body = replicate 200 121, chunk_keywords = {ascii ''alpha''}\<rparr>]\<rparr>]"

definition long_index :: "FileIndex list" where
  "long_index = [\<lparr>filename = ascii ''a.md'', title = ascii ''a'',
      chunks = [\<lparr>chunk_body = replicate 7000 120, chunk_keywords = {ascii ''alpha''}\<rparr>,
                \<lparr>chunk_body = replicate 2000 121, chunk_keywords = {ascii ''alpha''}\<rparr>]\<rparr>]"

subsection \<open>Sample sessions and events\<close>

definition active_session :: Session where
  "active_session = (Session_new (ascii ''s'') INTERVIEW_ASSISTANT)\<lparr>state := ACTIVE\<rparr>"




definition completed_seg1 :: TranscriptCompleted where
  "completed_seg1 = \<lparr>speaker = THEM, text' = ascii ''Hello'', segment_id = ascii ''seg1'',
                      timestamp = 1\<rparr>"

definition late_delta_seg1 :: TranscriptDelta where
  "late_delta_seg1 = \<lparr>speaker = THEM, text' = ascii ''x'', segment_id = ascii ''seg1'',
                       timestamp = 2\<rparr>"

definition created_handler :: ConnectionHandler where
  "created_handler =
     \<lparr>session = Some (Session_new (ascii ''s1'') INTERVIEW_ASSISTANT), sent = []\<rparr>"

definition three_segments :: TextAggregator where
  "three_segments = TextAggregator_new\<lparr>history := [seg245, seg245, seg245]\<rparr>"

definition numbered_frames :: "bytes list" where
  "numbered_frames = map (\<lambda>i. [of_nat i]) [0..<250]"

section \<open>Audio ingress: results\<close>

text \<open>
  C10. Audio ingress is a no-op unless the session is active: when the handler has no
  session, or its session is in a state other than \<open>ACTIVE\<close>, \<open>_handle_audio\<close> returns the
  handler unchanged for every binary message; so both queues, every statistics counter
  and the messages sent to the client (no error among them) stay as they were.
\<close>

theorem handle_audio_inactive_noop:
  assumes "session h = None \<or> (\<exists>s. session h = Some s \<and> state s \<noteq> ACTIVE)"
  shows "handle_audio h data = h"
  using assms by (auto simp: handle_audio_def)

theorem handle_audio_inactive_noop_witness:
  "(session created_handler = None
      \<or> (\<exists>s. session created_handler = Some s \<and> state s \<noteq> ACTIVE))
   \<and> handle_audio created_handler [0, 1, 2] = created_handler"
proof -
  have h: "session created_handler = None
      \<or> (\<exists>s. session created_handler = Some s \<and> state s \<noteq> ACTIVE)"
    by (simp add: created_handler_def Session_new_def)
  from handle_audio_inactive_noop[OF h] h show ?thesis by blast
qed

text \<open>The \<open>try\<close>/\<open>except\<close> block on a queue of capacity 200 that is not over-full.\<close>

lemma put_drop_oldest_200:
  assumes "maxsize q = 200" "length (items q) \<le> 200"
  shows "put_drop_oldest q x =
     (q\<lparr>items := drop (Suc (length (items q)) - 200) (items q @ [x])\<rparr>, length (items q) = 200)"
proof (cases "length (items q) = 200")
  case True
  then obtain y ys where "items q = y # ys" by (cases "items q") auto
  with True assms show ?thesis
    by (simp add: put_drop_oldest_def put_nowait_def get_nowait_def full_def)
next
  case False
  with assms show ?thesis
    by (simp add: put_drop_oldest_def put_nowait_def full_def)
qed

lemma handle_audio_mic:
  assumes "session h = Some s" "state s = ACTIVE" "f \<noteq> []"
  shows "handle_audio h (0 # f) =
     h\<lparr>session := Some (s\<lparr>mic_queue := fst (put_drop_oldest (mic_queue s) f),
        stats := (if snd (put_drop_oldest (mic_queue s) f)
           then (stats s)\<lparr>total_frames_mic := total_frames_mic (stats s) + 1,
                           dropped_frames_mic := dropped_frames_mic (stats s) + 1\<rparr>
           else (stats s)\<lparr>total_frames_mic := total_frames_mic (stats s) + 1\<rparr>)\<rparr>)\<rparr>"
proof -
  from assms(3) have "\<not> length (0 # f) < 2" by (cases f) auto
  with assms(1,2) show ?thesis
    by (simp add: handle_audio_def Let_def split: prod.splits)
qed

lemma handle_audio_system:
  assumes "session h = Some s" "state s = ACTIVE" "f \<noteq> []"
  shows "handle_audio h (1 # f) =
     h\<lparr>session := Some (s\<lparr>system_queue := fst (put_drop_oldest (system_queue s) f),
        stats := (if snd (put_drop_oldest (system_queue s) f)
           then (stats s)\<lparr>total_frames_system := total_frames_system (stats s) + 1,
                           dropped_frames_system := dropped_frames_system (stats s) + 1\<rparr>
           else (stats s)\<lparr>total_frames_system := total_frames_system (stats s) + 1\<rparr>)\<rparr>)\<rparr>"
proof -
  from assms(3) have "\<not> length (1 # f) < 2" by (cases f) auto
  with assms(1,2) show ?thesis
    by (simp add: handle_audio_def Let_def split: prod.splits)
qed

text \<open>
  After any run of frames on the microphone channel into an empty queue, the queue holds
  the last 200 of them in order and the counter has grown by the number of the others.
\<close>

lemma deliver_mic:
  assumes "session h = Some s" "state s = ACTIVE"
    "mic_queue s = \<lparr>items = [], maxsize = 200\<rparr>" "\<forall>f\<in>set fs. f \<noteq> []"
  shows "\<exists>s'. session (deliver h (map ((#) 0) fs)) = Some s' \<and> state s' = ACTIVE
      \<and> mic_queue s' = \<lparr>items = drop (length fs - 200) fs, maxsize = 200\<rparr>
      \<and> dropped_frames_mic (stats s') = dropped_frames_mic (stats s) + int (length fs - 200)"
  using assms(4)
proof (induction fs rule: rev_induct)
  case Nil
  with assms show ?case by (simp add: deliver_def)
next
  case (snoc f fs)
  then obtain s' where s': "session (deliver h (map ((#) 0) fs)) = Some s'" "state s' = ACTIVE"
      "mic_queue s' = \<lparr>items = drop (length fs - 200) fs, maxsize = 200\<rparr>"
      "dropped_frames_mic (stats s') = dropped_frames_mic (stats s) + int (length fs - 200)"
    by auto
  from snoc.prems have f: "f \<noteq> []" by simp
  have step: "deliver h (map ((#) 0) (fs @ [f])) = handle_audio (deliver h (map ((#) 0) fs)) (0 # f)"
    by (simp add: deliver_def)
  have len: "length (items (mic_queue s')) \<le> 200" "maxsize (mic_queue s') = 200"
    using s'(3) by simp_all
  have ar: "length fs - (length fs - 200) = 200 \<Longrightarrow> Suc (length fs - 200) = length fs - 199"
    by arith
  show ?case
    unfolding step handle_audio_mic[OF s'(1) s'(2) f] put_drop_oldest_200[OF len(2) len(1)]
    using s' ar by (auto simp: Suc_diff_le)
qed

lemma deliver_system:
  assumes "session h = Some s" "state s = ACTIVE"
    "system_queue s = \<lparr>items = [], maxsize = 200\<rparr>" "\<forall>f\<in>set fs. f \<noteq> []"
  shows "\<exists>s'. session (deliver h (map ((#) 1) fs)) = Some s' \<and> state s' = ACTIVE
      \<and> system_queue s' = \<lparr>items = drop (length fs - 200) fs, maxsize = 200\<rparr>
      \<and> dropped_frames_system (stats s')
          = dropped_frames_system (stats s) + int (length fs - 200)"
  using assms(4)
proof (induction fs rule: rev_induct)
  case Nil
  with assms show ?case by (simp add: deliver_def)
next
  case (snoc f fs)
  then obtain s' where s': "session (deliver h (map ((#) 1) fs)) = Some s'" "state s' = ACTIVE"
      "system_queue s' = \<lparr>items = drop (length fs - 200) fs, maxsize = 200\<rparr>"
      "dropped_frames_system (stats s')
         = dropped_frames_system (stats s) + int (length fs - 200)"
    by auto
  from snoc.prems have f: "f \<noteq> []" by simp
  have step: "deliver h (map ((#) 1) (fs @ [f])) = handle_audio (deliver h (map ((#) 1) fs)) (1 # f)"
    by (simp add: deliver_def)
  have len: "length (items (system_queue s')) \<le> 200" "maxsize (system_queue s') = 200"
    using s'(3) by simp_all
  have ar: "length fs - (length fs - 200) = 200 \<Longrightarrow> Suc (length fs - 200) = length fs - 199"
    by arith
  show ?case
    unfolding step handle_audio_system[OF s'(1) s'(2) f] put_drop_oldest_200[OF len(2) len(1)]
    using s' ar by (auto simp: Suc_diff_le)
qed

text \<open>
  C6. Drop-on-overflow: an active session whose queue for a channel is empty (capacity
  200) and whose dropped-frames counter for that channel is 0 receives 250 well-formed
  frames on that channel (channel byte 0 or 1, at least one PCM byte), with no consumer
  dequeuing. Afterwards the queue holds exactly 200 frames, they are the last 200
  delivered, in the order of delivery, and the channel's dropped-frames counter is 50.
\<close>

theorem ingress_250_frames:
  assumes "session h = Some s" "state s = ACTIVE" "length fs = 250" "\<forall>f\<in>set fs. f \<noteq> []"
  shows "(mic_queue s = \<lparr>items = [], maxsize = 200\<rparr> \<and> dropped_frames_mic (stats s) = 0 \<longrightarrow>
            (\<exists>s'. session (deliver h (map ((#) 0) fs)) = Some s'
               \<and> items (mic_queue s') = drop 50 fs
               \<and> length (items (mic_queue s')) = 200
               \<and> dropped_frames_mic (stats s') = 50))
       \<and> (system_queue s = \<lparr>items = [], maxsize = 200\<rparr> \<and> dropped_frames_system (stats s) = 0 \<longrightarrow>
            (\<exists>s'. session (deliver h (map ((#) 1) fs)) = Some s'
               \<and> items (system_queue s') = drop 50 fs
               \<and> length (items (system_queue s')) = 200
               \<and> dropped_frames_system (stats s') = 50))"
proof (intro conjI impI)
  assume a: "mic_queue s = \<lparr>items = [], maxsize = 200\<rparr> \<and> dropped_frames_mic (stats s) = 0"
  then have q: "mic_queue s = \<lparr>items = [], maxsize = 200\<rparr>" by simp
  from deliver_mic[OF assms(1,2) q assms(4)] a assms(3)
  show "\<exists>s'. session (deliver h (map ((#) 0) fs)) = Some s'
               \<and> items (mic_queue s') = drop 50 fs
               \<and> length (items (mic_queue s')) = 200
               \<and> dropped_frames_mic (stats s') = 50"
    by auto
next
  assume a: "system_queue s = \<lparr>items = [], maxsize = 200\<rparr> \<and> dropped_frames_system (stats s) = 0"
  then have q: "system_queue s = \<lparr>items = [], maxsize = 200\<rparr>" by simp
  from deliver_system[OF assms(1,2) q assms(4)] a assms(3)
  show "\<exists>s'. session (deliver h (map ((#) 1) fs)) = Some s'
               \<and> items (system_queue s') = drop 50 fs
               \<and> length (items (system_queue s')) = 200
               \<and> dropped_frames_system (stats s') = 50"
    by auto
qed

theorem ingress_250_frames_witness:
  "session \<lparr>session = Some active_session, sent = []\<rparr> = Some active_session
   \<and> state active_session = ACTIVE
   \<and> length numbered_frames = 250
   \<and> [] \<notin> set numbered_frames
   \<and> mic_queue active_session = \<lparr>items = [], maxsize = 200\<rparr>
   \<and> dropped_frames_mic (stats active_session) = 0
   \<and> (\<exists>s'. session (deliver \<lparr>session = Some active_session, sent = []\<rparr>
                        (map ((#) 0) numbered_frames)) = Some s'
          \<and> items (mic_queue s') = drop 50 numbered_frames
          \<and> length (items (mic_queue s')) = 200
          \<and> dropped_frames_mic (stats s') = 50)"
proof -
  have h1: "session \<lparr>session = Some active_session, sent = []\<rparr> = Some active_session" by simp
  have h2: "state active_session = ACTIVE" by (simp add: active_session_def)
  have h3: "length numbered_frames = 250" by (simp add: numbered_frames_def)
  have h4': "[] \<notin> set numbered_frames" by (auto simp: numbered_frames_def)
  then have h4: "\<forall>f\<in>set numbered_frames. f \<noteq> []" by auto
  have h5: "mic_queue active_session = \<lparr>items = [], maxsize = 200\<rparr>"
    by (simp add: active_session_def Session_new_def)
  have h6: "dropped_frames_mic (stats active_session) = 0"
    by (simp add: active_session_def Session_new_def SessionStats_default_def)
  from ingress_250_frames[OF h1 h2 h3 h4] h5 h6
  have "\<exists>s'. session (deliver \<lparr>session = Some active_session, sent = []\<rparr>
                        (map ((#) 0) numbered_frames)) = Some s'
          \<and> items (mic_queue s') = drop 50 numbered_frames
          \<and> length (items (mic_queue s')) = 200
          \<and> dropped_frames_mic (stats s') = 50"
    by blast
  with h1 h2 h3 h4' h5 h6 show ?thesis by blast
qed

section \<open>Aggregator: results\<close>

text \<open>
  A delta for the id of a segment that was completed: the history keeps the completed
  segment, but the delta is taken up as the pending text.
\<close>

theorem late_delta_counterexample:
  "segment_id late_delta_seg1
     \<in> segment_id ` set (history (fst (complete_segment TextAggregator_new completed_seg1)))
   \<and> pending_text (add_delta (fst (complete_segment TextAggregator_new completed_seg1))
                     late_delta_seg1 3)
      \<noteq> pending_text (fst (complete_segment TextAggregator_new completed_seg1))"
  by (simp add: complete_segment_def add_delta_def TextAggregator_new_def completed_seg1_def
      late_delta_seg1_def deque_append_def ascii_def Let_def)

text \<open>
  C1 (amended). For every aggregator state and every delta, in particular a delta whose
  \<open>segment_id\<close> is that of an already completed segment, \<open>add_delta\<close> leaves the history
  unchanged, so the text of a completed segment is frozen. The delta is not discarded:
  it sets \<open>pending_segment_id\<close> to its id, and \<open>pending_text\<close> and \<open>pending_speaker\<close> to
  the text and speaker of the open segment with that id, which is a fresh one holding
  only the delta's text when no segment with that id is open.
\<close>

theorem add_delta_history_frozen:
  "history (add_delta a e now) = history a
   \<and> pending_segment_id (add_delta a e now) = Some (segment_id e)
   \<and> pending_text (add_delta a e now) =
       (case current_segments a (segment_id e) of
          None \<Rightarrow> text' e
        | Some seg \<Rightarrow> text' seg @ text' e)
   \<and> pending_speaker (add_delta a e now) =
       Some (case current_segments a (segment_id e) of
               None \<Rightarrow> speaker e
             | Some seg \<Rightarrow> speaker seg)"
  by (auto simp: add_delta_def Let_def dom_def split: option.splits)

text \<open>Completion closes the segment: no segment with that id stays open.\<close>

lemma complete_segment_closes:
  "current_segments (fst (complete_segment a c)) (segment_id c) = None"
  by (simp add: complete_segment_def Let_def)

subsection \<open>Global context\<close>

lemma length_join: "length (join sep ls) = sum_list (map length ls) + (length ls - 1) * length sep"
  by (induction sep ls rule: join.induct) auto

lemma global_context_loop_Cons:
  "global_context_loop m (seg # rest) texts tot =
     (if tot + line_len seg > m then texts
      else global_context_loop m rest (texts @ [render_segment seg]) (tot + line_len seg))"
  by (simp add: line_len_def Let_def)

text \<open>The loop takes the longest prefix whose lines fit the budget.\<close>

lemma global_context_loop_prefix:
  "\<exists>k\<le>length segs.
       global_context_loop m segs texts tot = texts @ map render_segment (take k segs)
     \<and> (k > 0 \<longrightarrow> tot + sum_list (map line_len (take k segs)) \<le> m)
     \<and> (k < length segs \<longrightarrow> tot + sum_list (map line_len (take (Suc k) segs)) > m)"
proof (induction segs arbitrary: texts tot)
  case Nil
  then show ?case by simp
next
  case (Cons seg rest)
  show ?case
  proof (cases "tot + line_len seg > m")
    case True
    then show ?thesis
      by (intro exI[of _ 0]) (simp add: global_context_loop_Cons del: global_context_loop.simps)
  next
    case False
    from Cons[of "texts @ [render_segment seg]" "tot + line_len seg"]
    obtain k where k: "k \<le> length rest"
      "global_context_loop m rest (texts @ [render_segment seg]) (tot + line_len seg)
         = (texts @ [render_segment seg]) @ map render_segment (take k rest)"
      "k > 0 \<longrightarrow> tot + line_len seg + sum_list (map line_len (take k rest)) \<le> m"
      "k < length rest \<longrightarrow> tot + line_len seg + sum_list (map line_len (take (Suc k) rest)) > m"
      by (auto simp: add.assoc)
    with False show ?thesis
      by (intro exI[of _ "Suc k"])
         (auto simp: global_context_loop_Cons add.assoc simp del: global_context_loop.simps)
  qed
qed

lemma sum_line_len:
  "sum_list (map line_len xs) = int (sum_list (map (length \<circ> render_segment) xs))"
  by (induction xs) (auto simp: line_len_def)

text \<open>Two segments whose lines have 250 characters each: the result has 501.\<close>

theorem global_context_counterexample:
  "length (get_global_context (TextAggregator_new\<lparr>history := [seg245, seg245]\<rparr>) 500) = 501"
  by (simp add: get_global_context_def render_segment_def seg245_def ascii_def
      TextAggregator_new_def Let_def)

text \<open>
  C9 (amended). For every aggregator history, \<open>get_global_context\<close> (with the default limit
  500) returns the lines of the last \<open>k\<close> segments of the history, rendered as
  \<open>[ME]\<close>/\<open>[THEM]\<close>-tagged lines, in chronological order and joined by newlines, where the
  lines of these \<open>k\<close> segments have at most 500 characters in total, not counting the
  newlines between them, and \<open>k\<close> is the largest such number (one more segment would
  exceed 500). The returned string therefore has at most \<open>500 + (k - 1)\<close> characters.
\<close>

theorem global_context_budget:
  "\<exists>k\<le>length (history a).
      get_global_context a 500
        = join [nl] (map render_segment (drop (length (history a) - k) (history a)))
    \<and> sum_list (map (length \<circ> render_segment) (drop (length (history a) - k) (history a))) \<le> 500
    \<and> (k < length (history a) \<longrightarrow>
         sum_list (map (length \<circ> render_segment)
                    (drop (length (history a) - Suc k) (history a))) > 500)
    \<and> length (get_global_context a 500) \<le> 500 + (k - 1)"
proof -
  let ?h = "history a"
  from global_context_loop_prefix[of "rev ?h" 500 "[]" 0]
  obtain k where k: "k \<le> length ?h"
    "global_context_loop 500 (rev ?h) [] 0 = map render_segment (take k (rev ?h))"
    "k > 0 \<longrightarrow> sum_list (map line_len (take k (rev ?h))) \<le> 500"
    "k < length ?h \<longrightarrow> sum_list (map line_len (take (Suc k) (rev ?h))) > 500"
    by auto
  have tk: "\<And>n. take n (rev ?h) = rev (drop (length ?h - n) ?h)"
    by (simp add: take_rev)
  have sumrev: "\<And>xs. sum_list (map line_len (rev xs)) = sum_list (map line_len xs)"
    by (metis rev_map sum_list_rev)
  have g: "get_global_context a 500 = join [nl] (map render_segment (drop (length ?h - k) ?h))"
    by (simp add: get_global_context_def k(2) tk rev_map)
  have s1: "sum_list (map (length \<circ> render_segment) (drop (length ?h - k) ?h)) \<le> 500"
  proof (cases "k > 0")
    case True
    with k(3) have "sum_list (map line_len (drop (length ?h - k) ?h)) \<le> 500"
      by (simp add: tk sumrev)
    then show ?thesis by (simp add: sum_line_len)
  next
    case False
    then show ?thesis by simp
  qed
  have s2: "k < length ?h \<longrightarrow>
         sum_list (map (length \<circ> render_segment) (drop (length ?h - Suc k) ?h)) > 500"
  proof
    assume "k < length ?h"
    with k(4) have "sum_list (map line_len (drop (length ?h - Suc k) ?h)) > 500"
      by (simp add: tk sumrev)
    then show "sum_list (map (length \<circ> render_segment) (drop (length ?h - Suc k) ?h)) > 500"
      by (simp add: sum_line_len)
  qed
  have "length (get_global_context a 500)
      = sum_list (map (length \<circ> render_segment) (drop (length ?h - k) ?h))
        + (length (drop (length ?h - k) ?h) - 1)"
    by (simp add: g length_join)
  also have "\<dots> \<le> 500 + (k - 1)"
    using s1 k(1) by simp
  finally have s3: "length (get_global_context a 500) \<le> 500 + (k - 1)" .
  from k(1) g s1 s2 s3 show ?thesis by blast
qed

theorem global_context_budget_witness:
  "(\<exists>k\<le>length (history three_segments).
      get_global_context three_segments 500
        = join [nl] (map render_segment
             (drop (length (history three_segments) - k) (history three_segments)))
    \<and> sum_list (map (length \<circ> render_segment)
         (drop (length (history three_segments) - k) (history three_segments))) \<le> 500
    \<and> (k < length (history three_segments) \<longrightarrow>
         sum_list (map (length \<circ> render_segment)
           (drop (length (history three_segments) - Suc k) (history three_segments))) > 500)
    \<and> length (get_global_context three_segments 500) \<le> 500 + (k - 1))
   \<and> get_global_context three_segments 500
       = join [nl] [render_segment seg245, render_segment seg245]"
proof -
  have e: "get_global_context three_segments 500
       = join [nl] [render_segment seg245, render_segment seg245]"
    by (simp add: get_global_context_def global_context_loop_Cons line_len_def three_segments_def
        TextAggregator_new_def render_segment_def seg245_def ascii_def
        del: global_context_loop.simps(2))
  from global_context_budget[of three_segments] e show ?thesis by blast
qed

section \<open>Meeting rate limit: results\<close>




section \<open>Session manager: results\<close>

text \<open>
  C2. The claim is that at most one session is ever \<open>ACTIVE\<close>. \<open>create_session\<close> stops the
  current session only when it is already \<open>ACTIVE\<close>, and \<open>start_session\<close> starts any session
  object in state \<open>CREATED\<close>, the current one or not. Two sessions created one after the
  other and then both started are both \<open>ACTIVE\<close>.
\<close>

theorem two_active_sessions:
  "length (active_sessions (manager_run
     [CreateSession (ascii ''a'') INTERVIEW_ASSISTANT,
      CreateSession (ascii ''b'') INTERVIEW_ASSISTANT,
      StartSession 0, StartSession 1])) = 2"
  by (simp add: active_sessions_def manager_run_def create_session_def start_session_def
      SessionManager_new_def Session_new_def Let_def)

section \<open>Completion streamer: results\<close>

text \<open>
  C4. The claim is that a response with a non-2xx status increments \<open>llm_errors\<close> and
  publishes \<open>LlmError\<close>. On a response with status 500 \<open>_generate_hint\<close> returns from
  inside its \<open>try\<close> block: nothing is published and the session, with its \<open>llm_errors\<close>
  counter at 0, is unchanged.
\<close>

theorem status_500_not_counted:
  "generate_hint active_session LLMService_new [(ascii ''h1'', Response 500 [])]
     = (active_session, LLMService_new, [])
   \<and> llm_errors (stats active_session) = 0"
  by (simp add: generate_once_def LLMService_new_def Let_def active_session_def
      Session_new_def SessionStats_default_def)

text \<open>The sibling path: a request that raises is counted and published.\<close>

lemma raised_is_counted:
  "generate_hint active_session LLMService_new [(ascii ''h1'', Failed (ascii ''boom''))]
     = (active_session\<lparr>stats := (stats active_session)\<lparr>llm_errors := 1\<rparr>\<rparr>,
        LLMService_new, [LLM_ERROR (ascii ''boom'')])"
  by (simp add: generate_once_def LLMService_new_def Let_def active_session_def
      Session_new_def SessionStats_default_def)

text \<open>No status other than 200 publishes anything or changes the session.\<close>

lemma non_200_abandoned:
  assumes "status_code \<noteq> 200"
  shows "generate_once s svc hint_id (Response status_code stream) =
     (s, svc\<lparr>generating := False, cancel_event := False, current_hint_id := None\<rparr>, [])"
  using assms by (simp add: generate_once_def Let_def)

section \<open>Hint formatting: results\<close>

lemma dash_marker_eq: "dash_marker = [45, 32]"
  by (simp add: dash_marker_def ascii_def)

lemma star_marker_eq: "star_marker = [42, 32]"
  by (simp add: star_marker_def ascii_def)

lemma space_eq: "ascii '' '' = [32]"
  by (simp add: ascii_def)

lemma dropWhile_hd: "xs \<noteq> [] \<Longrightarrow> \<not> P (hd xs) \<Longrightarrow> dropWhile P xs = xs"
  by (cases xs) auto

lemma strip_tight: "tight s \<Longrightarrow> strip s = s"
proof -
  assume t: "tight s"
  then have 1: "dropWhile py_isspace s = s" by (simp add: tight_def dropWhile_hd)
  from t have "rev s \<noteq> []" "\<not> py_isspace (hd (rev s))" by (simp_all add: tight_def hd_rev)
  then have "dropWhile py_isspace (rev s) = rev s" by (rule dropWhile_hd)
  with 1 show ?thesis by (simp add: strip_def)
qed

lemma strip_subset: "set (strip s) \<subseteq> set s"
proof
  fix x assume "x \<in> set (strip s)"
  then have "x \<in> set (dropWhile py_isspace (rev (dropWhile py_isspace s)))"
    by (simp only: strip_def set_rev)
  then have "x \<in> set (rev (dropWhile py_isspace s))" by (rule set_dropWhileD)
  then have "x \<in> set (dropWhile py_isspace s)" by (simp only: set_rev)
  then show "x \<in> set s" by (rule set_dropWhileD)
qed

lemma tight_strip: "strip s \<noteq> [] \<Longrightarrow> tight (strip s)"
proof -
  assume ne: "strip s \<noteq> []"
  let ?d = "dropWhile py_isspace s"
  let ?r = "dropWhile py_isspace (rev ?d)"
  have s: "strip s = rev ?r" by (simp add: strip_def)
  with ne have rne: "?r \<noteq> []" by simp
  then have h: "\<not> py_isspace (hd ?r)" by (rule hd_dropWhile)
  have last_r: "last (strip s) = hd ?r" using rne by (simp add: s last_rev)
  have dne: "?d \<noteq> []"
  proof
    assume e: "?d = []"
    have "?r = []" unfolding e by simp
    with rne show False by contradiction
  qed
  from dne have hd_d: "\<not> py_isspace (hd ?d)" by (rule hd_dropWhile)
  have "rev (rev ?d) = rev (takeWhile py_isspace (rev ?d) @ ?r)"
    by (simp only: takeWhile_dropWhile_id)
  then have "?d = rev ?r @ rev (takeWhile py_isspace (rev ?d))"
    by (simp only: rev_rev_ident rev_append)
  then have "hd ?d = hd (rev ?r @ rev (takeWhile py_isspace (rev ?d)))" by (rule arg_cong)
  also have "\<dots> = hd (rev ?r)" using rne by (simp only: hd_append2 rev_is_Nil_conv not_False_eq_True)
  finally have "hd ?d = hd (rev ?r)" .
  with hd_d s have "\<not> py_isspace (hd (strip s))" by simp
  with ne h last_r show ?thesis by (simp add: tight_def)
qed

lemma marker_props: "has_marker l \<Longrightarrow> l \<noteq> [] \<and> \<not> py_isspace (hd l)"
  by (cases l)
     (auto simp: has_marker_def startswith_def dash_marker_eq star_marker_eq second_marker_def
        py_isspace_def)

lemma has_marker_append: "has_marker l \<Longrightarrow> has_marker (l @ r)"
proof -
  have "\<And>p. startswith l p \<Longrightarrow> startswith (l @ r) p"
  proof -
    fix p assume a: "startswith l p"
    then have "length (take (length p) l) = length p" by (simp add: startswith_def)
    then have "length p \<le> length l" by simp
    with a show "startswith (l @ r) p" by (simp add: startswith_def)
  qed
  then show "has_marker l \<Longrightarrow> has_marker (l @ r)" by (auto simp: has_marker_def)
qed

lemma has_marker_dash: "has_marker (ascii ''- '' @ r)"
  by (simp add: has_marker_def startswith_def dash_marker_def)

lemma split_once_snd: "length (split_once sep s) > 1 \<Longrightarrow> set (split_once sep s ! 1) \<subseteq> set s"
proof -
  assume "length (split_once sep s) > 1"
  then have "split_once sep s ! 1 = tl (dropWhile (\<lambda>c. c \<noteq> sep) s)"
    by (auto simp: split_once_def split: if_splits)
  moreover have "set (tl (dropWhile (\<lambda>c. c \<noteq> sep) s)) \<subseteq> set s"
  proof
    fix x assume "x \<in> set (tl (dropWhile (\<lambda>c. c \<noteq> sep) s))"
    then have "x \<in> set (dropWhile (\<lambda>c. c \<noteq> sep) s)"
      by (cases "dropWhile (\<lambda>c. c \<noteq> sep) s") auto
    then show "x \<in> set s" by (rule set_dropWhileD)
  qed
  ultimately show ?thesis by simp
qed

lemma numbered_ok:
  assumes "nl \<notin> set p"
  shows "bullet_ok (ascii ''- '' @ strip p)"
proof (cases "strip p = []")
  case True
  then show ?thesis
    by (simp add: bullet_ok_def dash_marker_def[symmetric] has_marker_def startswith_def)
       (simp add: dash_marker_eq nl_def)
next
  case False
  then have t: "tight (strip p)" by (rule tight_strip)
  have "tight (ascii ''- '' @ strip p)"
    using t False by (simp add: tight_def ascii_def py_isspace_def)
  moreover have "nl \<notin> set (ascii ''- '' @ strip p)"
    using assms strip_subset[of p] by (auto simp: ascii_def nl_def)
  ultimately show ?thesis by (simp add: bullet_ok_def has_marker_dash)
qed

lemma continuation_ok:
  assumes "bullet_ok b" "strip raw \<noteq> []" "nl \<notin> set raw"
  shows "bullet_ok (b @ ascii '' '' @ strip raw)"
proof -
  from assms(1) have m: "has_marker b" by (simp add: bullet_ok_def)
  then have b: "b \<noteq> []" "\<not> py_isspace (hd b)" using marker_props by auto
  from assms(2) have t: "tight (strip raw)" by (rule tight_strip)
  have "tight (b @ ascii '' '' @ strip raw)"
    using b t assms(2) by (simp add: tight_def)
  moreover have "nl \<notin> set (b @ ascii '' '' @ strip raw)"
    using assms(1,3) strip_subset[of raw] by (auto simp: bullet_ok_def space_eq nl_def)
  ultimately show ?thesis using m by (simp add: bullet_ok_def has_marker_append)
qed

lemma format_step_ok:
  assumes "list_all bullet_ok bs" "nl \<notin> set raw"
  shows "list_all bullet_ok (format_step bs raw)"
proof -
  let ?line = "strip raw"
  have nlline: "nl \<notin> set ?line" using assms(2) strip_subset[of raw] by auto
  consider (empty) "?line = []"
    | (bullet) "?line \<noteq> []" "has_marker ?line"
    | (numbered) "?line \<noteq> []" "\<not> has_marker ?line" "py_isdigit (hd ?line) \<and> 46 \<in> set (take 3 ?line)"
    | (cont) "?line \<noteq> []" "\<not> has_marker ?line" "\<not> (py_isdigit (hd ?line) \<and> 46 \<in> set (take 3 ?line))" "bs \<noteq> []"
    | (drop) "?line \<noteq> []" "\<not> has_marker ?line" "\<not> (py_isdigit (hd ?line) \<and> 46 \<in> set (take 3 ?line))" "bs = []"
    by blast
  then show ?thesis
  proof cases
    case empty
    then show ?thesis using assms by (simp add: format_step_def)
  next
    case bullet
    then have "tight ?line" using tight_strip by blast
    with bullet nlline have "bullet_ok ?line" by (simp add: bullet_ok_def)
    moreover have "format_step bs raw = bs @ [?line]"
      using bullet by (simp add: format_step_def has_marker_def)
    ultimately show ?thesis using assms by simp
  next
    case numbered
    show ?thesis
    proof (cases "length (split_once 46 ?line) > 1")
      case True
      then have "nl \<notin> set (split_once 46 ?line ! 1)"
        using split_once_snd[of 46 ?line] nlline by auto
      then have "bullet_ok (ascii ''- '' @ strip (split_once 46 ?line ! 1))" by (rule numbered_ok)
      moreover have "format_step bs raw = bs @ [ascii ''- '' @ strip (split_once 46 ?line ! 1)]"
        using numbered True by (simp add: format_step_def has_marker_def Let_def)
      ultimately show ?thesis using assms by simp
    next
      case False
      then have "format_step bs raw = bs"
        using numbered by (simp add: format_step_def has_marker_def Let_def)
      then show ?thesis using assms by simp
    qed
  next
    case cont
    then have "format_step bs raw = butlast bs @ [last bs @ ascii '' '' @ ?line]"
      by (auto simp add: format_step_def has_marker_def Let_def)
    moreover have "bullet_ok (last bs)" using assms(1) cont(4)
      by (simp add: list_all_iff)
    then have "bullet_ok (last bs @ ascii '' '' @ ?line)"
      using cont(1) assms(2) by (rule continuation_ok)
    moreover have "list_all bullet_ok (butlast bs)" using assms(1)
      by (auto simp: list_all_iff dest: in_set_butlastD)
    ultimately show ?thesis by simp
  next
    case drop
    then have "format_step bs raw = bs"
      by (auto simp add: format_step_def has_marker_def Let_def)
    then show ?thesis using assms by simp
  qed
qed

lemma foldl_format_step_ok:
  "list_all bullet_ok bs \<Longrightarrow> \<forall>raw\<in>set raws. nl \<notin> set raw
     \<Longrightarrow> list_all bullet_ok (foldl format_step bs raws)"
  by (induction raws arbitrary: bs) (auto simp: format_step_ok)

lemma split_on_ne: "split_on sep s \<noteq> []"
  by (induction s) (auto split: list.splits)

lemma split_on_free: "\<forall>l\<in>set (split_on sep s). sep \<notin> set l"
  by (induction s) (auto split: list.splits)

lemma split_on_nosep: "sep \<notin> set s \<Longrightarrow> split_on sep s = [s]"
  by (induction s) auto

lemma split_on_append: "sep \<notin> set x \<Longrightarrow> split_on sep (x @ sep # r) = x # split_on sep r"
  by (induction x) auto

lemma split_on_join:
  "bs \<noteq> [] \<Longrightarrow> \<forall>b\<in>set bs. sep \<notin> set b \<Longrightarrow> split_on sep (join [sep] bs) = bs"
  by (induction "[sep]" bs rule: join.induct) (auto simp: split_on_nosep split_on_append)

lemma bullets_ok: "list_all bullet_ok (bullets t)"
proof -
  have "list_all bullet_ok (foldl format_step [] (split_on nl (strip t)))"
    using foldl_format_step_ok[of "[]" "split_on nl (strip t)"] split_on_free[of nl "strip t"]
    by simp
  then show ?thesis
    by (auto simp: bullets_def list_all_iff dest: in_set_takeD)
qed

lemma bullet_ok_ne: "bullet_ok b \<Longrightarrow> b \<noteq> []"
  using marker_props by (auto simp: bullet_ok_def)

lemma lines_format_hint: "nonempty_lines (format_hint t) = bullets t"
proof (cases "bullets t = []")
  case True
  then show ?thesis by (simp add: nonempty_lines_def format_hint_def bullets_def[symmetric])
next
  case False
  have ok: "list_all bullet_ok (bullets t)" by (rule bullets_ok)
  then have "\<forall>b\<in>set (bullets t). nl \<notin> set b" by (simp add: list_all_iff bullet_ok_def)
  with False have "split_on nl (join [nl] (bullets t)) = bullets t" by (rule split_on_join)
  moreover have "filter (\<lambda>l. l \<noteq> []) (bullets t) = bullets t"
    using ok bullet_ok_ne by (simp add: list_all_iff)
  ultimately show ?thesis by (simp add: nonempty_lines_def format_hint_def bullets_def[symmetric])
qed

lemma format_hint_lines:
  "length (nonempty_lines (format_hint t)) \<le> 3
   \<and> (\<forall>l\<in>set (nonempty_lines (format_hint t)).
         startswith l dash_marker \<or> startswith l second_marker \<or> startswith l star_marker)
   \<and> format_hint t = join [nl] (nonempty_lines (format_hint t))"
proof -
  have "length (bullets t) \<le> 3" by (simp add: bullets_def MAX_HINT_POINTS_def)
  moreover have "\<forall>l\<in>set (bullets t). has_marker l"
    using bullets_ok[of t] by (simp add: list_all_iff bullet_ok_def)
  moreover have "format_hint t = join [nl] (bullets t)" by (simp add: format_hint_def bullets_def)
  ultimately show ?thesis unfolding lines_format_hint has_marker_def by blast
qed

lemma tight_join:
  "bs \<noteq> [] \<Longrightarrow> \<forall>b\<in>set bs. tight b \<Longrightarrow> tight (join [nl] bs)"
proof (induction "[nl]" bs rule: join.induct)
  case 1 then show ?case by simp
next
  case (2 x) then show ?case by simp
next
  case (3 x y ys)
  then have "tight (join [nl] (y # ys))" by simp
  moreover have "tight x" using 3 by simp
  ultimately show ?case by (simp add: tight_def)
qed

lemma format_step_keep:
  "tight b \<Longrightarrow> has_marker b \<Longrightarrow> format_step acc b = acc @ [b]"
  using marker_props[of b] by (simp add: format_step_def strip_tight has_marker_def)

lemma foldl_keep:
  "\<forall>b\<in>set bs. tight b \<and> has_marker b \<Longrightarrow> foldl format_step acc bs = acc @ bs"
  by (induction bs arbitrary: acc) (auto simp: format_step_keep)

lemma strip_Nil: "strip [] = []"
  by (simp add: strip_def)

lemma format_hint_Nil: "format_hint [] = []"
  by (simp add: format_hint_def strip_Nil format_step_def)

lemma format_hint_idem:
  assumes "dash_marker \<notin> set (nonempty_lines (format_hint t))"
  shows "format_hint (format_hint t) = format_hint t"
proof (cases "bullets t = []")
  case True
  have "format_hint t = join [nl] (bullets t)" by (simp add: format_hint_def bullets_def)
  with True have "format_hint t = []" by simp
  then show ?thesis by (simp add: format_hint_Nil)
next
  case False
  let ?bs = "bullets t"
  have out: "format_hint t = join [nl] ?bs" by (simp add: format_hint_def bullets_def)
  from assms have nd: "dash_marker \<notin> set ?bs" by (simp add: lines_format_hint)
  have ok: "\<forall>b\<in>set ?bs. bullet_ok b" using bullets_ok[of t] by (simp add: list_all_iff)
  with nd have tm: "\<forall>b\<in>set ?bs. tight b \<and> has_marker b" by (auto simp: bullet_ok_def)
  then have "tight (join [nl] ?bs)" using False tight_join by blast
  then have s: "strip (format_hint t) = join [nl] ?bs" by (simp add: out strip_tight)
  have "\<forall>b\<in>set ?bs. nl \<notin> set b" using ok by (simp add: bullet_ok_def)
  with False have sp: "split_on nl (join [nl] ?bs) = ?bs" by (rule split_on_join)
  have len: "length ?bs \<le> 3" by (simp add: bullets_def MAX_HINT_POINTS_def)
  have "format_hint (format_hint t) = join [nl] (take MAX_HINT_POINTS (foldl format_step [] ?bs))"
    by (simp add: format_hint_def[of "format_hint t"] s sp)
  also have "\<dots> = join [nl] (take MAX_HINT_POINTS ?bs)" using tm by (simp add: foldl_keep)
  also have "\<dots> = join [nl] ?bs" using len by (simp add: MAX_HINT_POINTS_def)
  finally show ?thesis by (simp add: out)
qed

lemma format_hint_numbered: "format_hint (ascii ''1.'') = [45, 32]"
  by (simp add: format_hint_def format_step_def strip_def py_isspace_def py_isdigit_def
      digit_ranges_def ascii_def split_once_def startswith_def dash_marker_def second_marker_def
      star_marker_def nl_def MAX_HINT_POINTS_def Let_def)

lemma format_hint_bare_dash: "format_hint [45, 32] = []"
  by (simp add: format_hint_def format_step_def strip_def py_isspace_def py_isdigit_def
      digit_ranges_def ascii_def split_once_def startswith_def dash_marker_def second_marker_def
      star_marker_def nl_def MAX_HINT_POINTS_def Let_def)

lemma format_hint_star: "nonempty_lines (format_hint (ascii ''* x'')) = [ascii ''* x'']"
  by (simp add: nonempty_lines_def format_hint_def format_step_def strip_def py_isspace_def
      py_isdigit_def digit_ranges_def ascii_def split_once_def startswith_def dash_marker_def
      second_marker_def star_marker_def nl_def MAX_HINT_POINTS_def Let_def)

lemma format_hint_sample:
  "nonempty_lines (format_hint numbered_hint) = [ascii ''- scope'', ascii ''* risks'']"
  by (simp add: numbered_hint_def nonempty_lines_def format_hint_def format_step_def strip_def
      py_isspace_def py_isdigit_def digit_ranges_def ascii_def split_once_def startswith_def
      dash_marker_def second_marker_def star_marker_def nl_def MAX_HINT_POINTS_def Let_def)

text \<open>
  Formatting \<open>1.\<close> gives the bare marker \<open>- \<close>, and formatting that gives the empty
  string; and a line that starts with \<open>* \<close> is kept as it is.
\<close>

theorem format_hint_counterexample:
  "format_hint (format_hint (ascii ''1.'')) \<noteq> format_hint (ascii ''1.'')
   \<and> nonempty_lines (format_hint (ascii ''* x'')) = [ascii ''* x'']
   \<and> \<not> startswith (ascii ''* x'') dash_marker"
  by (simp add: format_hint_numbered format_hint_bare_dash format_hint_star)
     (simp add: startswith_def dash_marker_def ascii_def)

text \<open>
  C3 (amended). For every input string \<open>t\<close>, \<open>_format_hint(t)\<close> consists of at most 3
  newline-separated lines, none of them empty, each beginning with one of the three
  markers the function keeps: \<open>- \<close>, \<open>* \<close>, or the third marker as the source file
  spells it. Formatting is idempotent, \<open>_format_hint(_format_hint(t)) = _format_hint(t)\<close>,
  whenever no line of \<open>_format_hint(t)\<close> is the bare marker \<open>- \<close>.
\<close>

theorem format_hint_normalizing:
  "length (nonempty_lines (format_hint t)) \<le> 3
   \<and> (\<forall>l\<in>set (nonempty_lines (format_hint t)).
         startswith l dash_marker \<or> startswith l second_marker \<or> startswith l star_marker)
   \<and> format_hint t = join [nl] (nonempty_lines (format_hint t))
   \<and> (dash_marker \<notin> set (nonempty_lines (format_hint t))
        \<longrightarrow> format_hint (format_hint t) = format_hint t)"
  using format_hint_lines[of t] format_hint_idem[of t] by blast

theorem format_hint_normalizing_witness:
  "dash_marker \<notin> set (nonempty_lines (format_hint numbered_hint))
   \<and> format_hint (format_hint numbered_hint) = format_hint numbered_hint
   \<and> nonempty_lines (format_hint numbered_hint) = [ascii ''- scope'', ascii ''* risks'']"
proof -
  have h: "dash_marker \<notin> set (nonempty_lines (format_hint numbered_hint))"
    unfolding format_hint_sample by (simp add: dash_marker_def ascii_def)
  from format_hint_normalizing[of numbered_hint] h format_hint_sample show ?thesis by blast
qed

section \<open>Retrieval: results\<close>

lemma body_chars_Cons: "body_chars (c # cs) = int (length (scored_text c)) + body_chars cs"
  by (simp add: body_chars_def)

lemma body_chars_Nil: "body_chars [] = 0"
  by (simp add: body_chars_def)

lemma context_loop_over: "tot > B \<Longrightarrow> context_loop B cs parts tot = parts"
  by (cases cs) (auto simp: Let_def)

lemma context_loop_fit:
  "tot + int (length (scored_text c)) \<le> B \<Longrightarrow>
   context_loop B (c # rest) parts tot
     = context_loop B rest (parts @ [whole c]) (tot + int (length (scored_text c)))"
  by (simp add: Let_def whole_def)

lemma context_loop_cut:
  assumes "tot + int (length (scored_text c)) > B" "B - tot > 100"
  shows "context_loop B (c # rest) parts tot = parts @ [truncated c (nat (B - tot))]"
proof -
  let ?body' = "take (nat (B - tot)) (scored_text c) @ ascii ''...''"
  have "int (length ?body') = (B - tot) + 3" using assms by (simp add: ascii_def)
  then have "tot + int (length ?body') > B" by simp
  then have "context_loop B rest (parts @ [render_part (scored_filename c) ?body']) (tot + int (length ?body'))
      = parts @ [render_part (scored_filename c) ?body']"
    by (rule context_loop_over)
  then show ?thesis using assms by (simp add: Let_def truncated_def del: length_append)
qed

lemma context_loop_stop:
  assumes "tot + int (length (scored_text c)) > B" "\<not> B - tot > 100"
  shows "context_loop B (c # rest) parts tot = parts"
  using assms by (simp add: Let_def)

lemma context_loop_closed:
  "tot \<le> B \<Longrightarrow>
   \<exists>k\<le>length cs.
      tot + body_chars (take k cs) \<le> B
    \<and> (k < length cs \<longrightarrow> tot + body_chars (take (Suc k) cs) > B)
    \<and> context_loop B cs parts tot =
        parts @ map whole (take k cs) @
        (if k < length cs \<and> B - (tot + body_chars (take k cs)) > 100
         then [truncated (cs ! k) (nat (B - (tot + body_chars (take k cs))))] else [])"
proof (induction cs arbitrary: parts tot)
  case Nil
  then show ?case by (simp add: body_chars_Nil)
next
  case (Cons c rest)
  let ?n = "int (length (scored_text c))"
  show ?case
  proof (cases "tot + ?n \<le> B")
    case True
    from Cons.IH[OF True, of "parts @ [whole c]"]
    obtain k where k: "k \<le> length rest"
      "tot + ?n + body_chars (take k rest) \<le> B"
      "k < length rest \<longrightarrow> tot + ?n + body_chars (take (Suc k) rest) > B"
      "context_loop B rest (parts @ [whole c]) (tot + ?n) =
        (parts @ [whole c]) @ map whole (take k rest) @
        (if k < length rest \<and> B - (tot + ?n + body_chars (take k rest)) > 100
         then [truncated (rest ! k) (nat (B - (tot + ?n + body_chars (take k rest))))] else [])"
      by auto
    show ?thesis
    proof (intro exI[of _ "Suc k"] conjI)
      show "Suc k \<le> length (c # rest)" using k(1) by simp
      show "tot + body_chars (take (Suc k) (c # rest)) \<le> B"
        using k(2) by (simp add: body_chars_Cons add.assoc)
      show "Suc k < length (c # rest) \<longrightarrow> tot + body_chars (take (Suc (Suc k)) (c # rest)) > B"
        using k(3) by (simp add: body_chars_Cons add.assoc)
      show "context_loop B (c # rest) parts tot =
        parts @ map whole (take (Suc k) (c # rest)) @
        (if Suc k < length (c # rest) \<and> B - (tot + body_chars (take (Suc k) (c # rest))) > 100
         then [truncated ((c # rest) ! Suc k) (nat (B - (tot + body_chars (take (Suc k) (c # rest)))))] else [])"
        unfolding context_loop_fit[OF True] k(4)
        by (simp add: body_chars_Cons add.assoc)
    qed
  next
    case False
    then have over: "tot + ?n > B" by simp
    show ?thesis
    proof (intro exI[of _ 0] conjI)
      show "0 \<le> length (c # rest)" by simp
      show "tot + body_chars (take 0 (c # rest)) \<le> B" using Cons.prems by (simp add: body_chars_Nil)
      show "0 < length (c # rest) \<longrightarrow> tot + body_chars (take (Suc 0) (c # rest)) > B"
        using over by (simp add: body_chars_Cons body_chars_Nil)
      show "context_loop B (c # rest) parts tot =
        parts @ map whole (take 0 (c # rest)) @
        (if 0 < length (c # rest) \<and> B - (tot + body_chars (take 0 (c # rest))) > 100
         then [truncated ((c # rest) ! 0) (nat (B - (tot + body_chars (take 0 (c # rest)))))] else [])"
      proof (cases "B - tot > 100")
        case True
        then show ?thesis using context_loop_cut[OF over True] by (simp add: body_chars_Nil)
      next
        case False
        then show ?thesis using context_loop_stop[OF over False] by (simp add: body_chars_Nil)
      qed
    qed
  qed
qed

lemma score_file_empty: "score_file {} f = []"
  by (simp add: score_file_def)

lemma select_top_empty: "indices = [] \<or> q = {} \<Longrightarrow> select_top indices q top_k = []"
proof (cases "indices = []")
  case True
  then show ?thesis by (simp add: select_top_def)
next
  case False
  assume "indices = [] \<or> q = {}"
  with False have q: "q = {}" by simp
  have c: "concat (map (score_file {}) indices) = []" by (simp add: score_file_empty)
  show ?thesis unfolding select_top_def q Let_def c by simp
qed

lemma retrieve_eq:
  "retrieve indices q top_k = join [nl, nl] (context_loop 8000 (select_top indices q top_k) [] 0)"
  by (auto simp: retrieve_def select_top_empty MAX_CONTEXT_TOKENS_def Let_def)

text \<open>
  C7 (amended). For every query result, \<open>retrieve\<close> concatenates the selected top chunks
  (top 3 by default) under a character budget of \<open>MAX_CONTEXT_TOKENS * 4 = 8000\<close>
  characters of chunk text: the chunks of the longest prefix whose texts fit the budget
  are rendered whole; the next chunk, whose text would exceed the remaining budget, is
  truncated to the remaining budget with a trailing \<open>...\<close> when more than 100 characters
  of budget remain, and otherwise is dropped; in both cases no further chunk is added.
\<close>

theorem retrieve_budget:
  "\<exists>k\<le>length (select_top indices q top_k).
      body_chars (take k (select_top indices q top_k)) \<le> 8000
    \<and> (k < length (select_top indices q top_k) \<longrightarrow>
          body_chars (take (Suc k) (select_top indices q top_k)) > 8000)
    \<and> retrieve indices q top_k =
        join [nl, nl]
          (map whole (take k (select_top indices q top_k)) @
           (if k < length (select_top indices q top_k)
               \<and> 8000 - body_chars (take k (select_top indices q top_k)) > 100
            then [truncated (select_top indices q top_k ! k)
                    (nat (8000 - body_chars (take k (select_top indices q top_k))))]
            else []))"
proof -
  let ?top = "select_top indices q top_k"
  have "(0::int) \<le> 8000" by simp
  from context_loop_closed[OF this, of ?top "[]"]
  obtain k where k: "k \<le> length ?top"
      "0 + body_chars (take k ?top) \<le> 8000"
      "k < length ?top \<longrightarrow> 0 + body_chars (take (Suc k) ?top) > 8000"
      "context_loop 8000 ?top [] 0 =
        [] @ map whole (take k ?top) @
        (if k < length ?top \<and> 8000 - (0 + body_chars (take k ?top)) > 100
         then [truncated (?top ! k) (nat (8000 - (0 + body_chars (take k ?top))))] else [])"
    by blast
  show ?thesis
  proof (intro exI[of _ k] conjI)
    show "k \<le> length ?top" by (rule k(1))
    show "body_chars (take k ?top) \<le> 8000" using k(2) by simp
    show "k < length ?top \<longrightarrow> body_chars (take (Suc k) ?top) > 8000" using k(3) by simp
    show "retrieve indices q top_k =
        join [nl, nl]
          (map whole (take k ?top) @
           (if k < length ?top \<and> 8000 - body_chars (take k ?top) > 100
            then [truncated (?top ! k) (nat (8000 - body_chars (take k ?top)))]
            else []))"
      unfolding retrieve_eq k(4) by simp
  qed
qed

text \<open>
  With exactly 100 characters of budget left, the second chunk is dropped, not truncated.
\<close>

theorem retrieve_counterexample:
  "length (select_top big_index {ascii ''alpha''} 3) = 2
   \<and> retrieve big_index {ascii ''alpha''} 3
       = render_part (ascii ''a.md'') (replicate 7900 120)"
  by (simp add: retrieve_def select_top_def big_index_def score_file_def MAX_CONTEXT_TOKENS_def
      Let_def)

lemma retrieve_long_index:
  "retrieve long_index {ascii ''alpha''} 3 =
   join [nl, nl] [render_part (ascii ''a.md'') (replicate 7000 120),
                  render_part (ascii ''a.md'') (replicate 1000 121 @ ascii ''...'')]"
  by (simp add: retrieve_def select_top_def long_index_def score_file_def MAX_CONTEXT_TOKENS_def
      Let_def)

theorem retrieve_budget_witness:
  "(\<exists>k\<le>length (select_top long_index {ascii ''alpha''} 3).
      body_chars (take k (select_top long_index {ascii ''alpha''} 3)) \<le> 8000
    \<and> (k < length (select_top long_index {ascii ''alpha''} 3) \<longrightarrow>
          body_chars (take (Suc k) (select_top long_index {ascii ''alpha''} 3)) > 8000)
    \<and> retrieve long_index {ascii ''alpha''} 3 =
        join [nl, nl]
          (map whole (take k (select_top long_index {ascii ''alpha''} 3)) @
           (if k < length (select_top long_index {ascii ''alpha''} 3)
               \<and> 8000 - body_chars (take k (select_top long_index {ascii ''alpha''} 3)) > 100
            then [truncated (select_top long_index {ascii ''alpha''} 3 ! k)
                    (nat (8000 - body_chars (take k (select_top long_index {ascii ''alpha''} 3))))]
            else [])))
   \<and> retrieve long_index {ascii ''alpha''} 3 =
       join [nl, nl] [render_part (ascii ''a.md'') (replicate 7000 120),
                      render_part (ascii ''a.md'') (replicate 1000 121 @ ascii ''...'')]"
  using retrieve_budget[of long_index "{ascii ''alpha''}" 3] retrieve_long_index by blast

section \<open>Audio level: results\<close>

lemma int16_samples_zero: "\<forall>x\<in>set b. x = 0 \<Longrightarrow> \<forall>y\<in>set (int16_samples b). y = 0"
  by (induction b rule: int16_samples.induct) auto

lemma sum_squares_zero:
  "\<forall>y\<in>set ys. y = (0::int) \<Longrightarrow> sum_list (map (\<lambda>x. (real_of_int x)\<^sup>2) ys) = 0"
  by (induction ys) auto

text \<open>A single zero byte: \<open>np.frombuffer\<close> raises, no level is returned.\<close>

theorem calculate_level_counterexample:
  "calculate_level [0] = Inl ValueError"
  by (simp add: calculate_level_def frombuffer_int16_def)

text \<open>
  C8 (amended). \<open>calculate_level\<close> returns a level for every byte string of even length
  (whole 16-bit samples), and the level lies in the interval from -60.0 to 0.0; for the
  empty byte string and for every all-zero byte string of even length it returns exactly
  -60.0. On a byte string of odd length it raises \<open>ValueError\<close>.
\<close>

theorem calculate_level_bounds:
  "(even (length b) \<longrightarrow> (\<exists>v. calculate_level b = Inr v \<and> - 60 \<le> v \<and> v \<le> 0))
   \<and> (even (length b) \<and> (\<forall>x\<in>set b. x = 0) \<longrightarrow> calculate_level b = Inr (- 60))
   \<and> (odd (length b) \<longrightarrow> calculate_level b = Inl ValueError)"
proof (intro conjI impI)
  assume "even (length b)"
  then show "\<exists>v. calculate_level b = Inr v \<and> - 60 \<le> v \<and> v \<le> 0"
    by (auto simp: calculate_level_def frombuffer_int16_def Let_def)
next
  assume a: "even (length b) \<and> (\<forall>x\<in>set b. x = 0)"
  then have "sum_list (map (\<lambda>x. (real_of_int x)\<^sup>2) (int16_samples b)) = 0"
    using int16_samples_zero sum_squares_zero by blast
  with a show "calculate_level b = Inr (- 60)"
    by (auto simp: calculate_level_def frombuffer_int16_def Let_def)
next
  assume "odd (length b)"
  then have "length b mod 2 \<noteq> 0" by presburger
  moreover from \<open>odd (length b)\<close> have "length b \<noteq> 0" by auto
  ultimately show "calculate_level b = Inl ValueError"
    by (simp add: calculate_level_def frombuffer_int16_def)
qed

theorem calculate_level_bounds_witness:
  "even (length [255, 127 :: byte])
   \<and> (\<exists>v. calculate_level [255, 127] = Inr v \<and> - 60 \<le> v \<and> v \<le> 0)
   \<and> calculate_level [] = Inr (- 60)
   \<and> calculate_level [0, 0, 0, 0] = Inr (- 60)
   \<and> odd (length [0, 0, 0 :: byte])
   \<and> calculate_level [0, 0, 0] = Inl ValueError"
  using calculate_level_bounds[of "[255, 127]"] calculate_level_bounds[of "[]"]
    calculate_level_bounds[of "[0, 0, 0, 0]"] calculate_level_bounds[of "[0, 0, 0]"]
  by simp

end
